theory Spec2Isabelle
  imports Complex_Main "HOL-Library.FSet"
begin

section \<open>Photo deduplication (photos2.py)\<close>

text \<open>
  The development follows \<^verbatim>\<open>photos2.py\<close>: the class \<^verbatim>\<open>Photo\<close> with
  \<^verbatim>\<open>scan_directory\<close>, \<^verbatim>\<open>find_unique_images\<close>, \<^verbatim>\<open>_calculate_similarity\<close> and
  \<^verbatim>\<open>process_unique_files\<close>, and the functions \<^verbatim>\<open>setup_logging\<close> and \<^verbatim>\<open>main\<close>.

  Conventions of the embedding.
  \<^item> A Python \<^verbatim>\<open>str\<close> is a \<open>string\<close>; paths and hash values are strings.
  \<^item> A Python \<^verbatim>\<open>dict\<close> is an association list with distinct keys in insertion order:
    assigning to a key that is present replaces the value where the key stands,
    assigning to a new key puts the entry at the end.
  \<^item> A raised exception is the left summand of a result \<open>exn + 'a\<close>.
  \<^item> The value \<^verbatim>\<open>100 - (diff_bits * 100 / len(hash1))\<close> is a Python float; it is
    computed here in exact rational arithmetic.
  \<^item> The calls of the \<^verbatim>\<open>logging\<close> module are collected, in order, in a list of
    records (level, message); which of them a handler prints is not modelled.
  \<^item> Opening and hashing an image (\<^verbatim>\<open>Image.open\<close>, \<^verbatim>\<open>imagehash.average_hash\<close>,
    \<^verbatim>\<open>str\<close>) belong to libraries, not to the program: they are one parameter
    \<open>img\<close>, that gives for a hash size and a path the hash string or the exception raised.
\<close>

subsection \<open>Exceptions and log records\<close>

datatype exn =
    UnidentifiedImageError
  | ZeroDivisionError
  | FileNotFoundError
  | FileExistsError
  | PermissionError
  | OtherException string

datatype level = DEBUG | INFO | WARNING | ERROR

datatype message =
    LoggingTo string
  | InputDirMissing string
  | NoSupportedFiles string
  | Processed nat nat
  | SkippingCorrupted string
  | ErrorProcessing string exn
  | CreatedOutputDir string
  | ErrorCreatingOutputDir exn
  | Placing bool nat nat string
  | HashValue string
  | ErrorPlacing bool string exn
  | ThresholdOutOfRange
  | Starting
  | InputDirectory string
  | OutputDirectory string
  | Options bool int int bool
  | FoundUnique nat nat

type_synonym log = "(level \<times> message) list"

subsection \<open>Dictionaries in insertion order\<close>

type_synonym ('k, 'v) dict = "('k \<times> 'v) list"

fun dict_set :: "('k, 'v) dict \<Rightarrow> 'k \<Rightarrow> 'v \<Rightarrow> ('k, 'v) dict" where
  "dict_set [] k v = [(k, v)]"
| "dict_set ((k', v') # d) k v =
     (if k' = k then (k, v) # d else (k', v') # dict_set d k v)"

definition dict_keys :: "('k, 'v) dict \<Rightarrow> 'k list" where
  "dict_keys d = map fst d"

subsection \<open>\<^verbatim>\<open>_calculate_similarity\<close>\<close>

text \<open>
  \<^verbatim>\<open>sum(bit1 != bit2 for bit1, bit2 in zip(hash1, hash2))\<close>: the booleans are summed
  as 0 and 1 over the positions of the two strings.
\<close>

definition diff_bits :: "string \<Rightarrow> string \<Rightarrow> nat" where
  "diff_bits hash1 hash2 =
     sum_list (map (\<lambda>(bit1, bit2). if bit1 \<noteq> bit2 then 1 else 0) (zip hash1 hash2))"

text \<open>
  The division by \<^verbatim>\<open>len(hash1)\<close> raises \<^verbatim>\<open>ZeroDivisionError\<close> for two empty strings.
\<close>

definition calculate_similarity :: "string \<Rightarrow> string \<Rightarrow> exn + rat" where
  "calculate_similarity hash1 hash2 =
     (if length hash1 \<noteq> length hash2 then Inr 0
      else if length hash1 = 0 then Inl ZeroDivisionError
      else Inr (100 - (of_nat (diff_bits hash1 hash2) * 100 / of_nat (length hash1))))"

subsection \<open>\<^verbatim>\<open>find_unique_images\<close>\<close>

text \<open>
  The inner loop \<^verbatim>\<open>for existing_hash in unique_images\<close>, over the keys in
  insertion order, with its \<^verbatim>\<open>break\<close>; the result is the final value of
  \<^verbatim>\<open>is_similar\<close>, or the exception of a comparison.
\<close>

fun is_similar :: "int \<Rightarrow> string \<Rightarrow> string list \<Rightarrow> exn + bool" where
  "is_similar threshold hash_value [] = Inr False"
| "is_similar threshold hash_value (existing_hash # rest) =
     (case calculate_similarity hash_value existing_hash of
        Inl e \<Rightarrow> Inl e
      | Inr s \<Rightarrow>
          if s \<ge> of_int threshold then Inr True
          else is_similar threshold hash_value rest)"

text \<open>
  The statement \<^verbatim>\<open>if threshold > 0: ... else: ...\<close> that decides what happens to a
  hashed image: the dictionary afterwards, or the exception of a comparison.
\<close>

definition update_unique_images ::
  "int \<Rightarrow> (string, string) dict \<Rightarrow> string \<Rightarrow> string \<Rightarrow> exn + (string, string) dict" where
  "update_unique_images threshold unique_images hash_value filepath =
     (if threshold > 0 then
        (case is_similar threshold hash_value (dict_keys unique_images) of
           Inl e \<Rightarrow> Inl e
         | Inr similar \<Rightarrow>
             Inr (if \<not> similar then dict_set unique_images hash_value filepath
                  else unique_images))
      else Inr (dict_set unique_images hash_value filepath))"

text \<open>
  The body of the \<^verbatim>\<open>try\<close> block for the file number \<open>i\<close> (counted from 1): open and
  hash, update the dictionary, log the progress.
\<close>

fun try_image ::
  "(int \<Rightarrow> string \<Rightarrow> exn + string) \<Rightarrow> int \<Rightarrow> int \<Rightarrow> nat \<Rightarrow> nat \<Rightarrow> string \<Rightarrow>
   (string, string) dict \<times> log \<Rightarrow> exn + (string, string) dict \<times> log" where
  "try_image img hash_size threshold total_files i filepath (unique_images, lg) =
     (case img hash_size filepath of
        Inl e \<Rightarrow> Inl e
      | Inr hash_value \<Rightarrow>
          (case update_unique_images threshold unique_images hash_value filepath of
             Inl e \<Rightarrow> Inl e
           | Inr unique_images' \<Rightarrow>
               Inr (unique_images',
                    if i mod max 1 (total_files div 10) = 0
                    then lg @ [(INFO, Processed i total_files)] else lg)))"

text \<open>The \<^verbatim>\<open>try\<close> statement with its two handlers: every exception ends the file, not the loop.\<close>

fun handle_exception :: "string \<Rightarrow> (string, string) dict \<times> log \<Rightarrow> exn \<Rightarrow> (string, string) dict \<times> log" where
  "handle_exception filepath (unique_images, lg) UnidentifiedImageError =
     (unique_images, lg @ [(WARNING, SkippingCorrupted filepath)])"
| "handle_exception filepath (unique_images, lg) e =
     (unique_images, lg @ [(ERROR, ErrorProcessing filepath e)])"

definition process_image ::
  "(int \<Rightarrow> string \<Rightarrow> exn + string) \<Rightarrow> int \<Rightarrow> int \<Rightarrow> nat \<Rightarrow> nat \<Rightarrow> string \<Rightarrow>
   (string, string) dict \<times> log \<Rightarrow> (string, string) dict \<times> log" where
  "process_image img hash_size threshold total_files i filepath st =
     (case try_image img hash_size threshold total_files i filepath st of
        Inr st' \<Rightarrow> st'
      | Inl e \<Rightarrow> handle_exception filepath st e)"

fun images_loop ::
  "(int \<Rightarrow> string \<Rightarrow> exn + string) \<Rightarrow> int \<Rightarrow> int \<Rightarrow> nat \<Rightarrow> nat \<Rightarrow> string list \<Rightarrow>
   (string, string) dict \<times> log \<Rightarrow> (string, string) dict \<times> log" where
  "images_loop img hash_size threshold total_files i [] st = st"
| "images_loop img hash_size threshold total_files i (filepath # rest) st =
     images_loop img hash_size threshold total_files (Suc i) rest
       (process_image img hash_size threshold total_files i filepath st)"

text \<open>The returned dictionary, together with the log records the call made.\<close>

definition find_unique_images ::
  "(int \<Rightarrow> string \<Rightarrow> exn + string) \<Rightarrow> string list \<Rightarrow> int \<Rightarrow> int \<Rightarrow>
   (string, string) dict \<times> log" where
  "find_unique_images img files hash_size threshold =
     images_loop img hash_size threshold (length files) 1 files ([], [])"

subsection \<open>Paths (\<^verbatim>\<open>os.path\<close> on POSIX) and formatting\<close>

text \<open>
  The functions of \<^verbatim>\<open>os.path\<close> that the program calls, as \<^verbatim>\<open>posixpath\<close> defines them,
  on strings: \<^verbatim>\<open>str.rfind\<close> gives the last index of a character or -1.
\<close>

fun rfind_from :: "nat \<Rightarrow> char \<Rightarrow> string \<Rightarrow> int \<Rightarrow> int" where
  "rfind_from i c [] found = found"
| "rfind_from i c (x # xs) found = rfind_from (Suc i) c xs (if x = c then int i else found)"

definition rfind :: "char \<Rightarrow> string \<Rightarrow> int" where
  "rfind c p = rfind_from 0 c p (-1)"

definition basename :: "string \<Rightarrow> string" where
  "basename p = drop (nat (rfind CHR ''/'' p + 1)) p"

definition join :: "string \<Rightarrow> string \<Rightarrow> string" where
  "join a b =
     (if b \<noteq> [] \<and> hd b = CHR ''/'' then b
      else if a = [] \<or> last a = CHR ''/'' then a @ b
      else a @ ''/'' @ b)"

text \<open>
  \<^verbatim>\<open>splitext\<close>: the extension starts at the last dot, if that dot comes after the last
  separator and some character between the two is not a dot.
\<close>

definition splitext :: "string \<Rightarrow> string \<times> string" where
  "splitext p =
     (let sepIndex = rfind CHR ''/'' p; dotIndex = rfind CHR ''.'' p in
      if dotIndex > sepIndex
         \<and> list_ex (\<lambda>c. c \<noteq> CHR ''.'')
              (take (nat dotIndex - nat (sepIndex + 1)) (drop (nat (sepIndex + 1)) p))
      then (take (nat dotIndex) p, drop (nat dotIndex) p)
      else (p, []))"

definition lower_char :: "char \<Rightarrow> char" where
  "lower_char c =
     (if (65::nat) \<le> of_char c \<and> of_char c \<le> (90::nat)
      then char_of (of_char c + (32::nat)) else c)"

definition lower :: "string \<Rightarrow> string" where
  "lower s = map lower_char s"

text \<open>The decimal digits of a number, as an f-string writes \<^verbatim>\<open>{counter}\<close>.\<close>

definition digit :: "nat \<Rightarrow> char" where
  "digit d = char_of (48 + d)"

fun show_nat :: "nat \<Rightarrow> string" where
  "show_nat n = (if n < 10 then [digit n] else show_nat (n div 10) @ [digit (n mod 10)])"

declare show_nat.simps [simp del]

subsection \<open>The file system\<close>

text \<open>
  What the program sees of the operating system: the set of the paths that exist
  (\<^verbatim>\<open>os.path.exists\<close>), compared as strings, and the set of the paths that the process
  is not allowed to create, for which a creation raises \<^verbatim>\<open>PermissionError\<close>.
\<close>

record filesystem =
  paths :: "string fset"
  denied :: "string fset"

definition exists :: "filesystem \<Rightarrow> string \<Rightarrow> bool" where
  "exists fs p = (p |\<in>| paths fs)"

definition create :: "filesystem \<Rightarrow> string \<Rightarrow> filesystem" where
  "create fs p = fs\<lparr>paths := finsert p (paths fs)\<rparr>"

text \<open>The directories above a path: its prefixes up to a separator.\<close>

definition ancestors :: "string \<Rightarrow> string list" where
  "ancestors p = map (\<lambda>i. take i p) (filter (\<lambda>i. p ! i = CHR ''/'') [1..<length p])"

text \<open>
  \<^verbatim>\<open>os.makedirs(name)\<close> creates the missing directories above \<open>name\<close> and then
  \<open>name\<close>; it raises \<^verbatim>\<open>FileExistsError\<close> if \<open>name\<close> exists. The result is the
  exception, if any, and the file system as it is then.
\<close>

fun mkdir_each :: "string list \<Rightarrow> filesystem \<Rightarrow> (exn + unit) \<times> filesystem" where
  "mkdir_each [] fs = (Inr (), fs)"
| "mkdir_each (p # ps) fs =
     (if exists fs p then mkdir_each ps fs
      else if p |\<in>| denied fs then (Inl PermissionError, fs)
      else mkdir_each ps (create fs p))"

definition makedirs :: "filesystem \<Rightarrow> string \<Rightarrow> (exn + unit) \<times> filesystem" where
  "makedirs fs name =
     (if exists fs name then (Inl FileExistsError, fs)
      else mkdir_each (ancestors name @ [name]) fs)"


text \<open>
  \<^verbatim>\<open>shutil.copy2(src, dst)\<close> and \<^verbatim>\<open>shutil.move(src, dst)\<close> for a destination that does
  not exist as a directory.
\<close>

definition copy2 :: "filesystem \<Rightarrow> string \<Rightarrow> string \<Rightarrow> (exn + unit) \<times> filesystem" where
  "copy2 fs src dst =
     (if \<not> exists fs src then (Inl FileNotFoundError, fs)
      else if dst |\<in>| denied fs then (Inl PermissionError, fs)
      else (Inr (), create fs dst))"

definition move :: "filesystem \<Rightarrow> string \<Rightarrow> string \<Rightarrow> (exn + unit) \<times> filesystem" where
  "move fs src dst =
     (if \<not> exists fs src then (Inl FileNotFoundError, fs)
      else if dst |\<in>| denied fs then (Inl PermissionError, fs)
      else (Inr (), create (fs\<lparr>paths := paths fs |-| {|src|}\<rparr>) dst))"

subsection \<open>How a call ends otherwise than by returning\<close>

datatype abort = SystemExit int | Uncaught exn


subsection \<open>\<^verbatim>\<open>setup_logging\<close>\<close>



subsection \<open>\<^verbatim>\<open>scan_directory\<close>\<close>





subsection \<open>\<^verbatim>\<open>process_unique_files\<close>\<close>

definition numbered :: "string \<Rightarrow> string \<Rightarrow> string \<Rightarrow> nat \<Rightarrow> string" where
  "numbered output_directory base ext counter =
     join output_directory (base @ ''_'' @ show_nat counter @ ext)"

text \<open>
  The loop \<^verbatim>\<open>while os.path.exists(dest_path)\<close> ends because the numbered names are
  all different and only finitely many paths exist.
\<close>

lemma digit_inj: "a < 10 \<Longrightarrow> b < 10 \<Longrightarrow> digit a = digit b \<Longrightarrow> a = b"
proof -
  assume a: "a < 10" and b: "b < 10" and eq: "digit a = digit b"
  from eq have "(of_char (digit a) :: nat) = of_char (digit b)" by simp
  with a b show "a = b" by (simp add: digit_def)
qed

lemma length_show_nat: "length (show_nat n) = (if n < 10 then 1 else Suc (length (show_nat (n div 10))))"
  by (subst show_nat.simps) simp

lemma show_nat_inj: "show_nat n = show_nat m \<Longrightarrow> n = m"
proof (induction n arbitrary: m rule: show_nat.induct)
  case (1 n)
  show ?case
  proof (cases "n < 10")
    case True
    with "1.prems" have len: "length (show_nat m) = 1"
      by (metis length_show_nat)
    have m: "m < 10"
    proof (rule ccontr)
      assume "\<not> m < 10"
      then have "length (show_nat m) = Suc (length (show_nat (m div 10)))"
        by (simp add: length_show_nat)
      moreover have "0 < length (show_nat (m div 10))"
        by (subst show_nat.simps) simp
      ultimately show False using len by simp
    qed
    from True m "1.prems" have "digit n = digit m"
      by (simp add: show_nat.simps [of n] show_nat.simps [of m])
    with True m show ?thesis by (rule digit_inj)
  next
    case False
    have m: "\<not> m < 10"
    proof
      assume "m < 10"
      then have "length (show_nat m) = 1" by (simp add: length_show_nat)
      moreover from False have "length (show_nat n) = Suc (length (show_nat (n div 10)))"
        by (simp add: length_show_nat)
      moreover have "0 < length (show_nat (n div 10))"
        by (subst show_nat.simps) simp
      ultimately show False using "1.prems" by simp
    qed
    from False m "1.prems"
    have eq: "show_nat (n div 10) @ [digit (n mod 10)] = show_nat (m div 10) @ [digit (m mod 10)]"
      by (simp add: show_nat.simps [of n] show_nat.simps [of m])
    then have "show_nat (n div 10) = show_nat (m div 10)" by simp
    with False "1.IH" have d: "n div 10 = m div 10" by blast
    from eq have "digit (n mod 10) = digit (m mod 10)" by simp
    then have "n mod 10 = m mod 10" by (intro digit_inj) simp_all
    with d show ?thesis by (metis div_mult_mod_eq)
  qed
qed

lemma join_inj: "hd (b @ x) = hd (b @ y) \<Longrightarrow> b \<noteq> [] \<Longrightarrow> join a (b @ x) = join a (b @ y) \<Longrightarrow> x = y"
  by (auto simp: join_def split: if_splits)

lemma numbered_inj: "numbered out base ext j = numbered out base ext k \<Longrightarrow> j = k"
proof -
  assume eq: "numbered out base ext j = numbered out base ext k"
  have "join out ((base @ ''_'') @ (show_nat j @ ext)) = join out ((base @ ''_'') @ (show_nat k @ ext))"
    using eq by (simp add: numbered_def)
  moreover have "hd ((base @ ''_'') @ (show_nat j @ ext)) = hd ((base @ ''_'') @ (show_nat k @ ext))"
    by (cases base) simp_all
  ultimately have "show_nat j @ ext = show_nat k @ ext"
    using join_inj [of "base @ ''_''" "show_nat j @ ext" "show_nat k @ ext" out] by simp
  then show "j = k" by (simp add: show_nat_inj)
qed

lemma finite_numbered: "finite {k. exists fs (numbered out base ext k)}"
proof -
  have "{k. exists fs (numbered out base ext k)} = numbered out base ext -` fset (paths fs)"
    by (auto simp: exists_def)
  moreover have "inj (numbered out base ext)"
    by (rule injI) (rule numbered_inj)
  ultimately show ?thesis by (simp add: finite_vimageI)
qed

function free_dest :: "filesystem \<Rightarrow> string \<Rightarrow> string \<Rightarrow> string \<Rightarrow> string \<Rightarrow> nat \<Rightarrow> string" where
  "free_dest fs output_directory base ext dest_path counter =
     (if exists fs dest_path
      then free_dest fs output_directory base ext
             (numbered output_directory base ext counter) (counter + 1)
      else dest_path)"
  by pat_completeness auto
termination
proof (relation "measure (\<lambda>(fs, out, base, ext, dest_path, counter).
    card {k. counter \<le> k \<and> exists fs (numbered out base ext k)}
    + (if exists fs dest_path then 1 else 0))")
  show "wf (measure (\<lambda>(fs, out, base, ext, dest_path, counter).
    card {k. counter \<le> k \<and> exists fs (numbered out base ext k)}
    + (if exists fs dest_path then 1 else 0)))"
    by simp
next
  fix fs :: filesystem and output_directory base ext dest_path :: string and counter :: nat
  assume ex: "exists fs dest_path"
  let ?S = "\<lambda>c. {k. c \<le> k \<and> exists fs (numbered output_directory base ext k)}"
  have fin: "finite (?S counter)"
    by (rule finite_subset [OF _ finite_numbered [of fs output_directory base ext]]) auto
  have split: "?S counter = ?S (counter + 1) \<union>
      (if exists fs (numbered output_directory base ext counter) then {counter} else {})"
    by (auto simp: le_Suc_eq dest: le_neq_implies_less)
  have "card (?S counter) = card (?S (counter + 1)) +
      (if exists fs (numbered output_directory base ext counter) then 1 else 0)"
  proof (cases "exists fs (numbered output_directory base ext counter)")
    case True
    have "counter \<notin> ?S (counter + 1)" by simp
    moreover have "finite (?S (counter + 1))"
      by (rule finite_subset [OF _ fin]) auto
    ultimately have "card (insert counter (?S (counter + 1))) = Suc (card (?S (counter + 1)))"
      by (rule card_insert_disjoint [rotated])
    with True split show ?thesis by simp
  next
    case False
    with split show ?thesis by simp
  qed
  with ex show "((fs, output_directory, base, ext,
      numbered output_directory base ext counter, counter + 1),
      (fs, output_directory, base, ext, dest_path, counter))
    \<in> measure (\<lambda>(fs, out, base, ext, dest_path, counter).
    card {k. counter \<le> k \<and> exists fs (numbered out base ext k)}
    + (if exists fs dest_path then 1 else 0))"
    by simp
qed

declare free_dest.simps [simp del]

text \<open>
  The destination of one file (the statements from \<^verbatim>\<open>filename = os.path.basename(filepath)\<close>
  to the end of the \<^verbatim>\<open>while\<close> loop).
\<close>

definition resolve_dest :: "filesystem \<Rightarrow> string \<Rightarrow> string \<Rightarrow> string" where
  "resolve_dest fs output_directory filepath =
     (if exists fs (join output_directory (basename filepath))
      then free_dest fs output_directory
             (fst (splitext (basename filepath))) (snd (splitext (basename filepath)))
             (join output_directory (basename filepath)) 1
      else join output_directory (basename filepath))"

definition operation :: "bool \<Rightarrow> filesystem \<Rightarrow> string \<Rightarrow> string \<Rightarrow> (exn + unit) \<times> filesystem" where
  "operation copy = (if copy then copy2 else move)"

text \<open>The body of the loop over the items of the file table, with its handler.\<close>

fun place_file ::
  "bool \<Rightarrow> string \<Rightarrow> nat \<Rightarrow> nat \<Rightarrow> string \<times> string \<Rightarrow> filesystem \<times> log \<Rightarrow> filesystem \<times> log" where
  "place_file copy output_directory total_files i (hash_value, filepath) (fs, lg) =
     (case operation copy fs filepath (resolve_dest fs output_directory filepath) of
        (Inl e, fs') \<Rightarrow> (fs', lg @ [(ERROR, ErrorPlacing copy filepath e)])
      | (Inr u, fs') \<Rightarrow>
          (fs', lg @ [(INFO, Placing copy i total_files filepath), (DEBUG, HashValue hash_value)]))"

fun place_loop ::
  "bool \<Rightarrow> string \<Rightarrow> nat \<Rightarrow> nat \<Rightarrow> (string, string) dict \<Rightarrow> filesystem \<times> log \<Rightarrow> filesystem \<times> log" where
  "place_loop copy output_directory total_files i [] st = st"
| "place_loop copy output_directory total_files i (item # rest) st =
     place_loop copy output_directory total_files (Suc i) rest
       (place_file copy output_directory total_files i item st)"

text \<open>The first statement: create the output directory if it is missing, or exit with 1.\<close>

definition ensure_output_directory :: "filesystem \<Rightarrow> string \<Rightarrow> (abort + unit) \<times> filesystem \<times> log" where
  "ensure_output_directory fs output_directory =
     (if \<not> exists fs output_directory then
        (case makedirs fs output_directory of
           (Inl e, fs1) \<Rightarrow> (Inl (SystemExit 1), fs1, [(ERROR, ErrorCreatingOutputDir e)])
         | (Inr u, fs1) \<Rightarrow> (Inr (), fs1, [(INFO, CreatedOutputDir output_directory)]))
      else (Inr (), fs, []))"

definition process_unique_files ::
  "filesystem \<Rightarrow> (string, string) dict \<Rightarrow> string \<Rightarrow> bool \<Rightarrow> (abort + unit) \<times> filesystem \<times> log" where
  "process_unique_files fs filetable output_directory copy =
     (case ensure_output_directory fs output_directory of
        (Inl a, fs1, lg) \<Rightarrow> (Inl a, fs1, lg)
      | (Inr u, fs1, lg) \<Rightarrow>
          (Inr (),
           place_loop copy output_directory (length filetable) 1 filetable (fs1, lg)))"

subsection \<open>\<^verbatim>\<open>main\<close>\<close>








text \<open>A disk with two files of the same name and an empty output directory.\<close>

definition example_two :: filesystem where
  "example_two = \<lparr>paths = {|''out'', ''a/photo.jpg'', ''b/photo.jpg''|}, denied = {||}\<rparr>"

subsection \<open>Notions used to state the properties\<close>

text \<open>
  \<open>similar_enough\<close> is the test of the inner loop for one pair: the comparison returns
  a score and the score is at least the threshold.
\<close>

definition similar_enough :: "int \<Rightarrow> string \<Rightarrow> string \<Rightarrow> bool" where
  "similar_enough threshold hash_value existing_hash =
     (case calculate_similarity hash_value existing_hash of
        Inl e \<Rightarrow> False
      | Inr s \<Rightarrow> s \<ge> of_int threshold)"

text \<open>
  The dictionary after one more file, as \<open>process_image\<close> leaves it
  (lemma \<open>fst_process_image\<close>): the index, the total and the log have no part in it.
\<close>

definition next_unique_images ::
  "(int \<Rightarrow> string \<Rightarrow> exn + string) \<Rightarrow> int \<Rightarrow> int \<Rightarrow> (string, string) dict \<Rightarrow> string \<Rightarrow>
   (string, string) dict" where
  "next_unique_images img hash_size threshold unique_images filepath =
     (case img hash_size filepath of
        Inl e \<Rightarrow> unique_images
      | Inr hash_value \<Rightarrow>
          (case update_unique_images threshold unique_images hash_value filepath of
             Inl e \<Rightarrow> unique_images
           | Inr unique_images' \<Rightarrow> unique_images'))"

text \<open>The files that were opened and hashed without an exception.\<close>

definition fingerprinted :: "(int \<Rightarrow> string \<Rightarrow> exn + string) \<Rightarrow> int \<Rightarrow> string list \<Rightarrow> string list" where
  "fingerprinted img hash_size files = filter (\<lambda>f. \<not> isl (img hash_size f)) files"




text \<open>
  A directory for the examples: \<^verbatim>\<open>corrupt.jpg\<close> is no image, \<^verbatim>\<open>other.jpg\<close> hashes to
  \<^verbatim>\<open>00\<close>, \<^verbatim>\<open>near.jpg\<close> to \<^verbatim>\<open>fe\<close> and every other file to \<^verbatim>\<open>ff\<close>.
\<close>

definition example_img :: "int \<Rightarrow> string \<Rightarrow> exn + string" where
  "example_img hash_size filepath =
     (if filepath = ''corrupt.jpg'' then Inl UnidentifiedImageError
      else if filepath = ''other.jpg'' then Inr ''00''
      else if filepath = ''near.jpg'' then Inr ''fe''
      else Inr ''ff'')"

section \<open>Properties of the similarity score\<close>

lemma diff_bits_Cons:
  "diff_bits (a # x) (b # y) = (if a \<noteq> b then 1 else 0) + diff_bits x y"
  by (simp add: diff_bits_def)

lemma diff_bits_Nil: "diff_bits [] y = 0"
  by (simp add: diff_bits_def)



lemma diff_bits_le: "diff_bits hash1 hash2 \<le> length hash1"
proof (induction hash1 arbitrary: hash2)
  case Nil
  show ?case by (simp add: diff_bits_Nil)
next
  case (Cons a x)
  show ?case
  proof (cases hash2)
    case Nil
    then show ?thesis by (simp add: diff_bits_def)
  next
    case (Cons b y)
    with Cons.IH [of y] show ?thesis by (simp add: diff_bits_Cons)
  qed
qed

lemma diff_bits_sym: "diff_bits hash1 hash2 = diff_bits hash2 hash1"
proof (induction hash1 arbitrary: hash2)
  case Nil
  show ?case by (simp add: diff_bits_def)
next
  case (Cons a x)
  show ?case
  proof (cases hash2)
    case Nil
    then show ?thesis by (simp add: diff_bits_def)
  next
    case (Cons b y)
    with Cons.IH [of y] show ?thesis by (auto simp add: diff_bits_Cons)
  qed
qed

lemma calculate_similarity_sym:
  "calculate_similarity hash1 hash2 = calculate_similarity hash2 hash1"
  by (simp add: calculate_similarity_def diff_bits_sym)

lemma diff_bits_same: "diff_bits h h = 0"
  by (induction h) (simp_all add: diff_bits_Cons diff_bits_Nil)

lemma calculate_similarity_same:
  "h \<noteq> [] \<Longrightarrow> calculate_similarity h h = Inr 100"
  by (simp add: calculate_similarity_def diff_bits_same)

lemma calculate_similarity_empty: "calculate_similarity [] [] = Inl ZeroDivisionError"
  by (simp add: calculate_similarity_def)

lemma calculate_similarity_range:
  assumes "calculate_similarity hash1 hash2 = Inr s"
  shows "0 \<le> s \<and> s \<le> 100"
proof (cases "length hash1 = length hash2")
  case False
  with assms show ?thesis by (simp add: calculate_similarity_def)
next
  case True
  with assms have pos: "0 < length hash1"
    and s: "s = 100 - of_nat (diff_bits hash1 hash2) * 100 / of_nat (length hash1)"
    by (auto simp: calculate_similarity_def split: if_splits)
  have "(of_nat (diff_bits hash1 hash2) :: rat) \<le> of_nat (length hash1)"
    using diff_bits_le [of hash1 hash2] by (simp only: of_nat_le_iff)
  with pos have "(of_nat (diff_bits hash1 hash2) :: rat) * 100 / of_nat (length hash1) \<le> 100"
    by (simp add: field_simps)
  moreover have "0 \<le> (of_nat (diff_bits hash1 hash2) :: rat) * 100 / of_nat (length hash1)"
    by simp
  ultimately show ?thesis using s by simp
qed



text \<open>
  The score counts the positions of the two strings as they are passed. Read as
  hexadecimal digits, \<^verbatim>\<open>00\<close> and \<^verbatim>\<open>01\<close> are eight bits each and differ in one of them;
  as strings they differ in one position of two, and the score is 50.
\<close>

lemma calculate_similarity_counts_positions: "calculate_similarity ''00'' ''01'' = Inr 50"
  by (simp add: calculate_similarity_def diff_bits_def)

text \<open>
  Claim C5. For two hash strings of unequal length \<^verbatim>\<open>_calculate_similarity\<close> returns
  the value 0 and raises nothing; so under a positive threshold an image whose hash
  differs in length from every key accepted so far is never found similar to one of them.
\<close>

theorem calculate_similarity_unequal_length:
  "length hash1 \<noteq> length hash2 \<Longrightarrow>
     calculate_similarity hash1 hash2 = Inr 0
     \<and> (0 < threshold \<longrightarrow> is_similar threshold hash1 [hash2] = Inr False)"
  by (simp add: calculate_similarity_def)

theorem calculate_similarity_unequal_length_witness:
  "length ''ff'' \<noteq> length ''ff00''
   \<and> calculate_similarity ''ff'' ''ff00'' = Inr 0
   \<and> is_similar 1 ''ff'' [''ff00''] = Inr False"
  using calculate_similarity_unequal_length [of "''ff''" "''ff00''" 1] by simp

section \<open>Properties of \<^verbatim>\<open>find_unique_images\<close>\<close>

lemma images_loop_append:
  "images_loop img hs t n i (xs @ ys) st =
   images_loop img hs t n (i + length xs) ys (images_loop img hs t n i xs st)"
  by (induction xs arbitrary: i st) simp_all

lemma update_unique_images_nonpos:
  "threshold \<le> 0 \<Longrightarrow> update_unique_images threshold u h f = Inr (dict_set u h f)"
  by (simp add: update_unique_images_def)

lemma fst_handle_exception: "fst (handle_exception f st e) = fst st"
  by (cases st; cases e) simp_all

lemma fst_process_image:
  "fst (process_image img hs t n i f st) = next_unique_images img hs t (fst st) f"
  by (cases st)
    (simp add: process_image_def next_unique_images_def fst_handle_exception split: sum.splits)

lemma fst_images_loop:
  "fst (images_loop img hs t n i files st) = foldl (next_unique_images img hs t) (fst st) files"
  by (induction files arbitrary: i st) (simp_all add: fst_process_image)

lemma fst_find_unique_images:
  "fst (find_unique_images img files hs t) = foldl (next_unique_images img hs t) [] files"
  by (simp add: find_unique_images_def fst_images_loop)

subsection \<open>Assignments to the dictionary\<close>

lemma dict_keys_dict_set:
  "dict_keys (dict_set d k v) = (if k \<in> set (dict_keys d) then dict_keys d else dict_keys d @ [k])"
  by (induction d) (force simp: dict_keys_def)+

lemma dict_set_new: "k \<notin> set (dict_keys d) \<Longrightarrow> dict_set d k v = d @ [(k, v)]"
  by (induction d) (auto simp: dict_keys_def)


lemma length_dict_set:
  "length (dict_set d k v) = (if k \<in> set (dict_keys d) then length d else Suc (length d))"
  by (induction d) (force simp: dict_keys_def)+


subsection \<open>The comparison loop\<close>

lemma calculate_similarity_nonempty:
  "h \<noteq> [] \<Longrightarrow> \<exists>s. calculate_similarity h k = Inr s"
  by (simp add: calculate_similarity_def)

lemma is_similar_nonempty:
  "h \<noteq> [] \<Longrightarrow> is_similar t h keys = Inr (\<exists>k \<in> set keys. similar_enough t h k)"
proof (induction keys)
  case Nil
  show ?case by simp
next
  case (Cons k keys)
  from Cons.prems obtain s where s: "calculate_similarity h k = Inr s"
    using calculate_similarity_nonempty by blast
  with Cons show ?case by (simp add: similar_enough_def)
qed

lemma is_similar_False:
  "is_similar t h keys = Inr False \<Longrightarrow>
   \<forall>k \<in> set keys. \<exists>s. calculate_similarity h k = Inr s \<and> s < of_int t"
proof (induction keys)
  case Nil
  show ?case by simp
next
  case (Cons k keys)
  show ?case
  proof (cases "calculate_similarity h k")
    case (Inl e)
    with Cons.prems show ?thesis by simp
  next
    case (Inr s)
    with Cons.prems have lt: "s < of_int t" and rest: "is_similar t h keys = Inr False"
      by (simp_all split: if_splits)
    from Cons.IH [OF rest] Inr lt show ?thesis by simp
  qed
qed

subsection \<open>Exact mode\<close>





subsection \<open>Number of representatives\<close>

lemma update_unique_images_empty: "update_unique_images t [] h f = Inr [(h, f)]"
  by (simp add: update_unique_images_def dict_keys_def)

lemma next_unique_images_failed: "isl (img hs f) \<Longrightarrow> next_unique_images img hs t u f = u"
  by (cases "img hs f") (simp_all add: next_unique_images_def)

lemma next_unique_images_first:
  "img hs f = Inr h \<Longrightarrow> next_unique_images img hs t [] f = [(h, f)]"
  by (simp add: next_unique_images_def update_unique_images_empty)

lemma length_next_unique_images:
  "length u \<le> length (next_unique_images img hs t u f)
   \<and> length (next_unique_images img hs t u f) \<le> Suc (length u)"
  by (auto simp: next_unique_images_def update_unique_images_def length_dict_set
      split: sum.splits)

lemma length_foldl_next_upper:
  "length (foldl (next_unique_images img hs t) u files)
     \<le> length u + length (fingerprinted img hs files)"
proof (induction files arbitrary: u)
  case Nil
  show ?case by (simp add: fingerprinted_def)
next
  case (Cons f files)
  show ?case
  proof (cases "isl (img hs f)")
    case True
    with Cons.IH [of u] show ?thesis
      by (simp add: next_unique_images_failed fingerprinted_def)
  next
    case False
    have "length (next_unique_images img hs t u f) \<le> Suc (length u)"
      using length_next_unique_images by blast
    with Cons.IH [of "next_unique_images img hs t u f"] False show ?thesis
      by (simp add: fingerprinted_def)
  qed
qed

lemma length_foldl_next_lower:
  "length u \<le> length (foldl (next_unique_images img hs t) u files)"
proof (induction files arbitrary: u)
  case Nil
  show ?case by simp
next
  case (Cons f files)
  have "length u \<le> length (next_unique_images img hs t u f)"
    using length_next_unique_images by blast
  also have "\<dots> \<le> length (foldl (next_unique_images img hs t) (next_unique_images img hs t u f) files)"
    by (rule Cons.IH)
  finally show ?case by simp
qed

lemma foldl_next_nonempty:
  "fingerprinted img hs files \<noteq> [] \<Longrightarrow>
   1 \<le> length (foldl (next_unique_images img hs t) [] files)"
proof (induction files)
  case Nil
  then show ?case by (simp add: fingerprinted_def)
next
  case (Cons f files)
  show ?case
  proof (cases "img hs f")
    case (Inl e)
    with Cons show ?thesis
      by (simp add: next_unique_images_failed fingerprinted_def)
  next
    case (Inr h)
    have "1 \<le> length [(h, f)]" by simp
    also have "\<dots> \<le> length (foldl (next_unique_images img hs t) [(h, f)] files)"
      by (rule length_foldl_next_lower)
    finally show ?thesis using Inr by (simp add: next_unique_images_first)
  qed
qed

text \<open>
  Claim C4. Whatever the files and the threshold, \<^verbatim>\<open>find_unique_images\<close> returns at most
  as many representatives as there are files that were opened and hashed without an
  exception, and at least one if there is such a file; for a single file that was hashed
  the result is the one entry for it.
\<close>

theorem representatives_count:
  "length (fst (find_unique_images img files hash_size threshold))
     \<le> length (fingerprinted img hash_size files)
   \<and> (1 \<le> length (fingerprinted img hash_size files) \<longrightarrow>
        1 \<le> length (fst (find_unique_images img files hash_size threshold)))
   \<and> (files = [filepath] \<and> img hash_size filepath = Inr hash_value \<longrightarrow>
        fst (find_unique_images img files hash_size threshold) = [(hash_value, filepath)])"
proof -
  have upper: "length (fst (find_unique_images img files hash_size threshold))
     \<le> length (fingerprinted img hash_size files)"
    using length_foldl_next_upper [of img hash_size threshold "[]" files]
    by (simp add: fst_find_unique_images)
  have lower: "1 \<le> length (fingerprinted img hash_size files) \<longrightarrow>
        1 \<le> length (fst (find_unique_images img files hash_size threshold))"
  proof
    assume "1 \<le> length (fingerprinted img hash_size files)"
    then have "fingerprinted img hash_size files \<noteq> []" by auto
    then show "1 \<le> length (fst (find_unique_images img files hash_size threshold))"
      unfolding fst_find_unique_images by (rule foldl_next_nonempty)
  qed
  have single: "files = [filepath] \<and> img hash_size filepath = Inr hash_value \<longrightarrow>
        fst (find_unique_images img files hash_size threshold) = [(hash_value, filepath)]"
    by (simp add: fst_find_unique_images next_unique_images_first)
  from upper lower single show ?thesis by blast
qed

subsection \<open>Representatives are mutually dissimilar\<close>

lemma pairwise_dissimilar_next:
  assumes t: "0 < t"
    and inv: "\<forall>h1 \<in> set (dict_keys u). \<forall>h2 \<in> set (dict_keys u). h1 \<noteq> h2 \<longrightarrow>
       (\<exists>s. calculate_similarity h1 h2 = Inr s \<and> s < of_int t)"
  shows "\<forall>h1 \<in> set (dict_keys (next_unique_images img hs t u f)).
         \<forall>h2 \<in> set (dict_keys (next_unique_images img hs t u f)). h1 \<noteq> h2 \<longrightarrow>
       (\<exists>s. calculate_similarity h1 h2 = Inr s \<and> s < of_int t)"
proof (cases "img hs f")
  case (Inl e)
  with inv show ?thesis by (simp add: next_unique_images_def)
next
  case (Inr h)
  show ?thesis
  proof (cases "is_similar t h (dict_keys u)")
    case (Inl e)
    with Inr t inv show ?thesis
      by (simp add: next_unique_images_def update_unique_images_def)
  next
    case sim: (Inr b)
    show ?thesis
    proof (cases b)
      case True
      with sim Inr t inv show ?thesis
        by (simp add: next_unique_images_def update_unique_images_def)
    next
      case False
      with sim have "is_similar t h (dict_keys u) = Inr False" by simp
      then have new: "\<forall>k \<in> set (dict_keys u). \<exists>s. calculate_similarity h k = Inr s \<and> s < of_int t"
        by (rule is_similar_False)
      then have new': "\<forall>k \<in> set (dict_keys u). \<exists>s. calculate_similarity k h = Inr s \<and> s < of_int t"
        by (simp add: calculate_similarity_sym [of _ h])
      have next_eq: "next_unique_images img hs t u f = dict_set u h f"
        using Inr sim False t by (simp add: next_unique_images_def update_unique_images_def)
      have keys: "set (dict_keys (dict_set u h f)) = insert h (set (dict_keys u))"
        by (auto simp: dict_keys_dict_set)
      show ?thesis
        unfolding next_eq keys using inv new new' by blast
    qed
  qed
qed

lemma pairwise_dissimilar_foldl:
  assumes t: "0 < t"
  shows "\<forall>h1 \<in> set (dict_keys u). \<forall>h2 \<in> set (dict_keys u). h1 \<noteq> h2 \<longrightarrow>
       (\<exists>s. calculate_similarity h1 h2 = Inr s \<and> s < of_int t) \<Longrightarrow>
    \<forall>h1 \<in> set (dict_keys (foldl (next_unique_images img hs t) u files)).
         \<forall>h2 \<in> set (dict_keys (foldl (next_unique_images img hs t) u files)). h1 \<noteq> h2 \<longrightarrow>
       (\<exists>s. calculate_similarity h1 h2 = Inr s \<and> s < of_int t)"
proof (induction files arbitrary: u)
  case Nil
  then show ?case by simp
next
  case (Cons f files)
  have "\<forall>h1 \<in> set (dict_keys (next_unique_images img hs t u f)).
         \<forall>h2 \<in> set (dict_keys (next_unique_images img hs t u f)). h1 \<noteq> h2 \<longrightarrow>
       (\<exists>s. calculate_similarity h1 h2 = Inr s \<and> s < of_int t)"
    using t Cons.prems by (rule pairwise_dissimilar_next)
  from Cons.IH [OF this] show ?case by simp
qed

text \<open>
  Claim C9. For a positive threshold, two different hash values among the keys of the
  returned dictionary have a similarity score strictly below the threshold.
\<close>

theorem representatives_mutually_dissimilar:
  assumes "0 < threshold"
    and "h1 \<in> set (dict_keys (fst (find_unique_images img files hash_size threshold)))"
    and "h2 \<in> set (dict_keys (fst (find_unique_images img files hash_size threshold)))"
    and "h1 \<noteq> h2"
  shows "\<exists>s. calculate_similarity h1 h2 = Inr s \<and> s < of_int threshold"
proof -
  have "\<forall>h1 \<in> set (dict_keys ([] :: (string, string) dict)). \<forall>h2 \<in> set (dict_keys ([] :: (string, string) dict)). h1 \<noteq> h2 \<longrightarrow>
       (\<exists>s. calculate_similarity h1 h2 = Inr s \<and> s < of_int threshold)"
    by (simp add: dict_keys_def)
  from pairwise_dissimilar_foldl [OF assms(1) this, of img hash_size files] assms(2-4)
  show ?thesis by (simp add: fst_find_unique_images)
qed

subsection \<open>Near-duplicate mode, one image at a time\<close>

lemma next_unique_images_near:
  assumes "0 < t" and "img hs f = Inr h" and "h \<noteq> []"
  shows "next_unique_images img hs t u f =
     (if \<exists>k \<in> set (dict_keys u). similar_enough t h k then u else dict_set u h f)"
  using assms
  by (simp add: next_unique_images_def update_unique_images_def is_similar_nonempty)

lemma similar_enough_same: "h \<noteq> [] \<Longrightarrow> t \<le> 100 \<Longrightarrow> similar_enough t h h"
proof -
  assume "h \<noteq> []" and "t \<le> 100"
  then have "(of_int t :: rat) \<le> 100" by (metis of_int_le_iff of_int_numeral)
  with \<open>h \<noteq> []\<close> show ?thesis
    by (simp add: similar_enough_def calculate_similarity_same)
qed

text \<open>
  Claim C2. For a positive threshold, an image that was hashed (to a string that is not
  empty) is compared with the keys accepted from the files before it. It is discarded if
  and only if one of them has a score of at least the threshold with it; otherwise
  \<^verbatim>\<open>unique_images[hash_value] = filepath\<close> is executed, which for a threshold of at most
  100 appends the entry for it at the end of the dictionary.
\<close>

theorem near_duplicate_step:
  assumes "0 < threshold" and "img hash_size filepath = Inr hash_value" and "hash_value \<noteq> []"
  shows "fst (find_unique_images img (files @ [filepath]) hash_size threshold) =
      (if \<exists>k \<in> set (dict_keys (fst (find_unique_images img files hash_size threshold))).
            similar_enough threshold hash_value k
       then fst (find_unique_images img files hash_size threshold)
       else dict_set (fst (find_unique_images img files hash_size threshold)) hash_value filepath)
    \<and> (threshold \<le> 100 \<and>
        \<not> (\<exists>k \<in> set (dict_keys (fst (find_unique_images img files hash_size threshold))).
            similar_enough threshold hash_value k) \<longrightarrow>
        fst (find_unique_images img (files @ [filepath]) hash_size threshold) =
          fst (find_unique_images img files hash_size threshold) @ [(hash_value, filepath)])"
proof -
  let ?u = "fst (find_unique_images img files hash_size threshold)"
  have step: "fst (find_unique_images img (files @ [filepath]) hash_size threshold) =
      (if \<exists>k \<in> set (dict_keys ?u). similar_enough threshold hash_value k then ?u
       else dict_set ?u hash_value filepath)"
    using next_unique_images_near [of threshold img hash_size filepath hash_value ?u] assms
    by (simp add: fst_find_unique_images)
  have "fst (find_unique_images img (files @ [filepath]) hash_size threshold) = ?u @ [(hash_value, filepath)]"
    if le: "threshold \<le> 100"
      and no: "\<not> (\<exists>k \<in> set (dict_keys ?u). similar_enough threshold hash_value k)"
  proof -
    from similar_enough_same [OF assms(3) le] no have "hash_value \<notin> set (dict_keys ?u)"
      by blast
    then have "dict_set ?u hash_value filepath = ?u @ [(hash_value, filepath)]"
      by (rule dict_set_new)
    with step no show ?thesis by simp
  qed
  with step show ?thesis by blast
qed

subsection \<open>Files that cannot be decoded\<close>









subsection \<open>Exact mode: which file is kept\<close>





subsection \<open>One corrupt file and two distinct images\<close>




subsection \<open>Thresholds that are not positive\<close>

lemma process_image_threshold_nonpos:
  assumes "threshold \<le> 0"
  shows "process_image img hs threshold n i f st = process_image img hs 0 n i f st"
proof (cases st)
  case (Pair u lg)
  have "try_image img hs threshold n i f (u, lg) = try_image img hs 0 n i f (u, lg)"
    using assms by (simp add: update_unique_images_nonpos cong: sum.case_cong)
  with Pair show ?thesis by (simp only: process_image_def)
qed

lemma images_loop_threshold_nonpos:
  assumes "threshold \<le> 0"
  shows "images_loop img hs threshold n i files st = images_loop img hs 0 n i files st"
proof (induction files arbitrary: i st)
  case Nil
  show ?case by simp
next
  case (Cons f files)
  have "images_loop img hs threshold n i (f # files) st =
        images_loop img hs threshold n (Suc i) files (process_image img hs threshold n i f st)"
    by simp
  also have "\<dots> = images_loop img hs 0 n (Suc i) files (process_image img hs threshold n i f st)"
    by (rule Cons.IH)
  also have "\<dots> = images_loop img hs 0 n (Suc i) files (process_image img hs 0 n i f st)"
    by (simp only: process_image_threshold_nonpos [OF assms])
  finally show ?case by simp
qed

text \<open>
  Claim C10. For every threshold that is zero or negative, \<^verbatim>\<open>find_unique_images\<close>
  returns what it returns for threshold 0, the log included: the test
  \<^verbatim>\<open>threshold > 0\<close> sends it to the branch of exact mode.
\<close>

theorem nonpositive_threshold_is_exact_mode:
  "threshold \<le> 0 \<Longrightarrow>
   find_unique_images img files hash_size threshold = find_unique_images img files hash_size 0"
  unfolding find_unique_images_def by (rule images_loop_threshold_nonpos)

theorem nonpositive_threshold_is_exact_mode_witness:
  "(-5::int) \<le> 0
   \<and> find_unique_images example_img [''a.jpg'', ''corrupt.jpg'', ''b.jpg''] 8 (-5) =
       find_unique_images example_img [''a.jpg'', ''corrupt.jpg'', ''b.jpg''] 8 0"
proof -
  have h: "(-5::int) \<le> 0" by simp
  from nonpositive_threshold_is_exact_mode [OF h] h show ?thesis by blast
qed

subsection \<open>The properties on the example directory\<close>

theorem representatives_count_witness:
  "1 \<le> length (fingerprinted example_img 8 [''a.jpg''])
   \<and> [''a.jpg''] = [''a.jpg''] \<and> example_img 8 ''a.jpg'' = Inr ''ff''
   \<and> 1 \<le> length (fst (find_unique_images example_img [''a.jpg''] 8 90))
   \<and> fst (find_unique_images example_img [''a.jpg''] 8 90) = [(''ff'', ''a.jpg'')]"
proof -
  have h1: "1 \<le> length (fingerprinted example_img 8 [''a.jpg''])"
    by (simp add: fingerprinted_def example_img_def)
  have h2: "example_img 8 ''a.jpg'' = Inr ''ff''"
    by (simp add: example_img_def)
  from representatives_count [of example_img "[''a.jpg'']" 8 90 "''a.jpg''" "''ff''"] h1 h2
  show ?thesis by blast
qed

theorem representatives_mutually_dissimilar_witness:
  "(0::int) < 40
   \<and> ''ff'' \<in> set (dict_keys (fst (find_unique_images example_img
        [''a.jpg'', ''corrupt.jpg'', ''other.jpg'', ''near.jpg''] 8 40)))
   \<and> ''00'' \<in> set (dict_keys (fst (find_unique_images example_img
        [''a.jpg'', ''corrupt.jpg'', ''other.jpg'', ''near.jpg''] 8 40)))
   \<and> ''ff'' \<noteq> ''00''
   \<and> (\<exists>s. calculate_similarity ''ff'' ''00'' = Inr s \<and> s < of_int 40)"
proof -
  have r: "fst (find_unique_images example_img
        [''a.jpg'', ''corrupt.jpg'', ''other.jpg'', ''near.jpg''] 8 40) =
        [(''ff'', ''a.jpg''), (''00'', ''other.jpg'')]"
    by (simp add: find_unique_images_def process_image_def update_unique_images_def
        example_img_def dict_keys_def calculate_similarity_def diff_bits_def)
  have h1: "(0::int) < 40" by simp
  have h2: "''ff'' \<in> set (dict_keys (fst (find_unique_images example_img
        [''a.jpg'', ''corrupt.jpg'', ''other.jpg'', ''near.jpg''] 8 40)))"
    by (simp add: r dict_keys_def)
  have h3: "''00'' \<in> set (dict_keys (fst (find_unique_images example_img
        [''a.jpg'', ''corrupt.jpg'', ''other.jpg'', ''near.jpg''] 8 40)))"
    by (simp add: r dict_keys_def)
  have h4: "''ff'' \<noteq> ''00''" by simp
  from representatives_mutually_dissimilar [OF h1 h2 h3 h4] h1 h2 h3 h4
  show ?thesis by blast
qed

theorem near_duplicate_step_witness:
  "(0::int) < 90 \<and> example_img 8 ''near.jpg'' = Inr ''fe'' \<and> ''fe'' \<noteq> []
   \<and> (90::int) \<le> 100
   \<and> \<not> (\<exists>k \<in> set (dict_keys (fst (find_unique_images example_img [''a.jpg'', ''other.jpg''] 8 90))).
          similar_enough 90 ''fe'' k)
   \<and> fst (find_unique_images example_img ([''a.jpg'', ''other.jpg''] @ [''near.jpg'']) 8 90) =
       fst (find_unique_images example_img [''a.jpg'', ''other.jpg''] 8 90) @ [(''fe'', ''near.jpg'')]"
proof -
  have r: "fst (find_unique_images example_img [''a.jpg'', ''other.jpg''] 8 90) =
        [(''ff'', ''a.jpg''), (''00'', ''other.jpg'')]"
    by (simp add: find_unique_images_def process_image_def update_unique_images_def
        example_img_def dict_keys_def calculate_similarity_def diff_bits_def)
  have h1: "(0::int) < 90" by simp
  have h2: "example_img 8 ''near.jpg'' = Inr ''fe''" by (simp add: example_img_def)
  have h3: "''fe'' \<noteq> []" by simp
  have h4: "(90::int) \<le> 100" by simp
  have h5: "\<not> (\<exists>k \<in> set (dict_keys (fst (find_unique_images example_img [''a.jpg'', ''other.jpg''] 8 90))).
          similar_enough 90 ''fe'' k)"
    by (simp add: r dict_keys_def similar_enough_def calculate_similarity_def diff_bits_def)
  from near_duplicate_step [of 90 example_img 8 "''near.jpg''" "''fe''" "[''a.jpg'', ''other.jpg'']"]
    h1 h2 h3 h4 h5
  show ?thesis by blast
qed


section \<open>Placement\<close>


lemma show_nat_1: "show_nat (Suc 0) = ''1''"
  by (simp add: show_nat.simps digit_def char_of_eq_iff)


lemma denied_create: "denied (create fs p) = denied fs"
  by (simp add: create_def)




text \<open>
  The whole of \<^verbatim>\<open>process_unique_files\<close> on two files that are both called
  \<^verbatim>\<open>photo.jpg\<close>, copied: the second lands as \<^verbatim>\<open>photo_1.jpg\<close>.
\<close>

lemma two_files_named_photo:
  "fst (snd (process_unique_files example_two
        [(''ff'', ''a/photo.jpg''), (''00'', ''b/photo.jpg'')] ''out'' True)) =
   \<lparr>paths = {|''out/photo_1.jpg'', ''out/photo.jpg'', ''out'', ''a/photo.jpg'', ''b/photo.jpg''|},
     denied = {||}\<rparr>"
  by (simp add: process_unique_files_def ensure_output_directory_def example_two_def
      exists_def create_def operation_def copy2_def resolve_dest_def basename_def rfind_def
      join_def splitext_def Let_def free_dest.simps numbered_def show_nat_1)

section \<open>A missing input directory\<close>














end
